theory Spec2Isabelle
  imports Main "HOL-Library.Word" "HOL-Library.Multiset"
begin

section \<open>Cards (src/game/tienlen.ts)\<close>

text \<open>
  The TypeScript types \<open>Suit\<close> and \<open>Rank\<close> are unions of string literals; they are
  modelled as datatypes, one constructor per literal.  A \<open>Card\<close> is the object
  \<open>{ rank, suit }\<close>, compared by value everywhere in the engine.
\<close>

datatype Suit = Spade | Heart | Diamond | Club

datatype Rank = R3 | R4 | R5 | R6 | R7 | R8 | R9 | R10 | RJ | RQ | RK | RA | R2

record Card =
  rank :: Rank
  suit :: Suit

text \<open>\<open>RANKS = ['3','4','5','6','7','8','9','10','J','Q','K','A','2']\<close>.\<close>

definition RANKS :: "Rank list" where
  "RANKS = [R3, R4, R5, R6, R7, R8, R9, R10, RJ, RQ, RK, RA, R2]"

text \<open>\<open>Array.prototype.indexOf\<close>: the first index holding the value, \<open>-1\<close> when there is none.\<close>

fun indexOf :: "'a list \<Rightarrow> 'a \<Rightarrow> int" where
  "indexOf [] x = -1"
| "indexOf (y # ys) x =
     (if y = x then 0 else (let i = indexOf ys x in if i < 0 then -1 else i + 1))"

definition rankIndex :: "Rank \<Rightarrow> int" where
  "rankIndex r = indexOf RANKS r"

text \<open>\<open>SUIT_ORDER = ['\<clubsuit>','\<diamondsuit>','\<heartsuit>','\<spadesuit>']\<close>.\<close>

definition SUIT_ORDER :: "Suit list" where
  "SUIT_ORDER = [Club, Diamond, Heart, Spade]"

definition suitIndex :: "Suit \<Rightarrow> int" where
  "suitIndex s = indexOf SUIT_ORDER s"

subsection \<open>Text form\<close>

text \<open>
  A JavaScript string is a sequence of UTF-16 code units.  The four suit glyphs are in the
  Basic Multilingual Plane, so each is one code unit and \<open>s.slice(-1)\<close> cuts exactly the
  glyph off.
\<close>

type_synonym jsstring = "16 word list"

fun suitString :: "Suit \<Rightarrow> jsstring" where
  "suitString Spade = [0x2660]"
| "suitString Heart = [0x2665]"
| "suitString Diamond = [0x2666]"
| "suitString Club = [0x2663]"

fun rankString :: "Rank \<Rightarrow> jsstring" where
  "rankString R3 = [0x33]"
| "rankString R4 = [0x34]"
| "rankString R5 = [0x35]"
| "rankString R6 = [0x36]"
| "rankString R7 = [0x37]"
| "rankString R8 = [0x38]"
| "rankString R9 = [0x39]"
| "rankString R10 = [0x31, 0x30]"
| "rankString RJ = [0x4A]"
| "rankString RQ = [0x51]"
| "rankString RK = [0x4B]"
| "rankString RA = [0x41]"
| "rankString R2 = [0x32]"

text \<open>\<open>`${c.rank}${c.suit}`\<close>\<close>

definition cardToString :: "Card \<Rightarrow> jsstring" where
  "cardToString c = rankString (rank c) @ suitString (suit c)"

text \<open>
  \<open>arr.includes(x)\<close> followed by the cast of \<open>x\<close> to the element type: the element of
  \<open>arr\<close> whose string is \<open>x\<close>, if there is one.
\<close>

fun includesStr :: "('a \<Rightarrow> jsstring) \<Rightarrow> 'a list \<Rightarrow> jsstring \<Rightarrow> 'a option" where
  "includesStr str [] x = None"
| "includesStr str (y # ys) x = (if str y = x then Some y else includesStr str ys x)"

text \<open>
  \<open>parseCard\<close>: \<open>s.slice(-1)\<close> is the last code unit (the empty string for an empty \<open>s\<close>),
  \<open>s.slice(0, s.length - 1)\<close> is everything before it.  \<open>null\<close> is \<open>None\<close>.
\<close>

definition parseCard :: "jsstring \<Rightarrow> Card option" where
  "parseCard s =
     (let suit_tok = drop (length s - 1) s;
          rank_tok = take (length s - 1) s
      in case includesStr suitString [Spade, Heart, Diamond, Club] suit_tok of
           None \<Rightarrow> None
         | Some su \<Rightarrow>
             (case includesStr rankString RANKS rank_tok of
                None \<Rightarrow> None
              | Some r \<Rightarrow> Some \<lparr>rank = r, suit = su\<rparr>))"

section \<open>Sorting\<close>

text \<open>
  \<open>Array.prototype.sort(cmp)\<close> is a stable sort: the result is ordered by \<open>cmp\<close> and
  elements that \<open>cmp\<close> calls equal keep their input order.  Insertion from the right
  computes that list.
\<close>

fun insert_by :: "('a \<Rightarrow> 'a \<Rightarrow> int) \<Rightarrow> 'a \<Rightarrow> 'a list \<Rightarrow> 'a list" where
  "insert_by cmp x [] = [x]"
| "insert_by cmp x (y # ys) =
     (if cmp x y \<le> 0 then x # y # ys else y # insert_by cmp x ys)"

definition js_sort :: "('a \<Rightarrow> 'a \<Rightarrow> int) \<Rightarrow> 'a list \<Rightarrow> 'a list" where
  "js_sort cmp xs = foldr (insert_by cmp) xs []"

text \<open>The comparator of \<open>sortCardsByRankSuit\<close>.\<close>

definition cmpRankSuit :: "Card \<Rightarrow> Card \<Rightarrow> int" where
  "cmpRankSuit a b =
     (let ra = rankIndex (rank a); rb = rankIndex (rank b)
      in if ra \<noteq> rb then ra - rb else suitIndex (suit a) - suitIndex (suit b))"

definition sortCardsByRankSuit :: "Card list \<Rightarrow> Card list" where
  "sortCardsByRankSuit cards = js_sort cmpRankSuit cards"

section \<open>Combinations\<close>

text \<open>\<open>'single' | 'pair' | 'triple' | 'straight' | 'bomb4'\<close>; \<open>Pair\<close> is taken by HOL.\<close>

datatype ComboType = Single | PairT | Triple | Straight | Bomb4

record Combo =
  ctype :: ComboType
  cards :: "Card list"
  primaryRank :: Rank

text \<open>The loop of \<open>isStraight\<close> over \<open>i = 1 .. ranks.length - 1\<close>.\<close>

fun consecutive :: "Rank list \<Rightarrow> bool" where
  "consecutive (a # b # rs) =
     (if rankIndex b \<noteq> rankIndex a + 1 then False else consecutive (b # rs))"
| "consecutive rs = True"

text \<open>\<open>new Set(ranks).size\<close> is the number of different ranks.\<close>

definition isStraight :: "Card list \<Rightarrow> bool" where
  "isStraight cs =
     (if length cs < 3 then False
      else let ranks = map rank cs
           in if list_ex (\<lambda>r. r = R2) ranks then False
              else if length (remdups ranks) \<noteq> length ranks then False
              else consecutive ranks)"

text \<open>
  \<open>highestRank\<close> reads index \<open>cards.length - 1\<close> of the sorted copy.  \<open>detectCombo\<close>
  calls it only after \<open>isStraight\<close> has accepted the list, which has three cards or more
  then, so the index is in range (lemma \<open>highestRank_in_range\<close> below).
\<close>

definition highestRank :: "Card list \<Rightarrow> Rank" where
  "highestRank cs = rank (sortCardsByRankSuit cs ! (length cs - 1))"

definition mkCombo :: "ComboType \<Rightarrow> Card list \<Rightarrow> Rank \<Rightarrow> Combo" where
  "mkCombo t cs r = \<lparr>ctype = t, cards = cs, primaryRank = r\<rparr>"

definition detectCombo :: "Card list \<Rightarrow> Combo option" where
  "detectCombo raw =
     (let cs = sortCardsByRankSuit raw
      in if length cs = 0 then None
         else if length cs = 1 then Some (mkCombo Single cs (rank (cs ! 0)))
         else if length cs = 2 then
           (if rank (cs ! 0) = rank (cs ! 1) then Some (mkCombo PairT cs (rank (cs ! 0)))
            else None)
         else if length cs = 3 then
           (if list_all (\<lambda>c. rank c = rank (cs ! 0)) cs
              then Some (mkCombo Triple cs (rank (cs ! 0)))
            else if isStraight cs then Some (mkCombo Straight cs (highestRank cs))
            else None)
         else if length cs = 4 \<and> list_all (\<lambda>c. rank c = rank (cs ! 0)) cs
           then Some (mkCombo Bomb4 cs (rank (cs ! 0)))
         else if isStraight cs then Some (mkCombo Straight cs (highestRank cs))
         else None)"

section \<open>Comparing combinations\<close>

text \<open>
  An exception thrown by the JavaScript runtime.  The engine never throws on purpose; the
  only one it can raise is the \<open>TypeError\<close> of reading a property of \<open>undefined\<close>.
  A function that can throw returns \<open>js_error + 'a\<close>, \<open>Inl\<close> being the exception.
\<close>

datatype js_error = TypeError

text \<open>\<open>xs[i]\<close>: \<open>undefined\<close> (here \<open>None\<close>) outside \<open>0 .. xs.length - 1\<close>.\<close>

definition elemAt :: "'a list \<Rightarrow> int \<Rightarrow> 'a option" where
  "elemAt xs i = (if 0 \<le> i \<and> i < int (length xs) then Some (xs ! nat i) else None)"

definition Math_sign :: "int \<Rightarrow> int" where
  "Math_sign x = (if x > 0 then 1 else if x < 0 then -1 else 0)"

text \<open>
  \<open>compareCombos\<close> returns \<open>-1\<close>, \<open>0\<close> or \<open>1\<close>.  The tie-break reads \<open>.suit\<close> of the
  element at index \<open>cards.length - 1\<close> of each sorted copy, which throws when that list
  is empty.  Both branches of the size check are the same comparison in the source.
\<close>

definition compareCombos :: "Combo \<Rightarrow> Combo \<Rightarrow> js_error + int" where
  "compareCombos prev next =
     (if ctype prev = Bomb4 then
        (if ctype next = Bomb4
           then Inr (Math_sign (rankIndex (primaryRank next) - rankIndex (primaryRank prev)))
         else Inr (-1))
      else if ctype next = Bomb4 then Inr 1
      else if ctype prev \<noteq> ctype next then Inr (-1)
      else if (if ctype prev = Straight
                 then length (cards prev) \<noteq> length (cards next)
               else length (cards prev) \<noteq> length (cards next)) then Inr (-1)
      else let cmp = Math_sign (rankIndex (primaryRank next) - rankIndex (primaryRank prev))
           in if cmp \<noteq> 0 then Inr cmp
              else
                (case (elemAt (sortCardsByRankSuit (cards prev)) (int (length (cards prev)) - 1),
                       elemAt (sortCardsByRankSuit (cards next)) (int (length (cards next)) - 1)) of
                   (Some prevMax, Some nextMax) \<Rightarrow>
                     Inr (Math_sign (suitIndex (suit nextMax) - suitIndex (suit prevMax)))
                 | _ \<Rightarrow> Inl TypeError))"

section \<open>Dealing\<close>

text \<open>
  A JavaScript number as far as the engine produces one from integers: an integer, or the
  \<open>NaN\<close> that \<open>%\<close> gives for a zero divisor.  \<open>a % b\<close> has the sign of \<open>a\<close>.
\<close>

datatype number = Num int | NaN

definition js_rem :: "int \<Rightarrow> int \<Rightarrow> number" where
  "js_rem a b = (if b = 0 then NaN else Num (sgn a * (\<bar>a\<bar> mod \<bar>b\<bar>)))"

text \<open>
  Numbers are IEEE 754 doubles.  Every integer up to \<open>2^53\<close> in magnitude is a double;
  beyond, a double has 53 significant bits, and \<open>+\<close> and \<open>-\<close> return the double nearest
  to the exact result, the one with the even significand at a tie.  \<open>bitLength a\<close> is the
  number of binary digits of \<open>a\<close>, and \<open>toDouble x\<close> the double nearest to the integer
  \<open>x\<close>.  (\<open>%\<close> is exact on doubles, and adding or subtracting 1 never overflows.)
\<close>

fun bitLength :: "nat \<Rightarrow> nat" where
  "bitLength n = (if n = 0 then 0 else Suc (bitLength (n div 2)))"

declare bitLength.simps [simp del]

definition toDouble :: "int \<Rightarrow> int" where
  "toDouble x =
     (let a = nat \<bar>x\<bar>
      in if a \<le> 2 ^ 53 then x
         else let q = 2 ^ (bitLength a - 53);
                  m = a div q;
                  r = a mod q;
                  m' = (if 2 * r > q \<or> (2 * r = q \<and> odd m) then m + 1 else m)
              in sgn x * int (m' * q))"



section \<open>The table\<close>

text \<open>
  \<open>PlayerId = number\<close>; a seat passed by a caller is an integer, and \<open>currentPlayer\<close>
  can also hold the \<open>NaN\<close> that \<open>(player + 1) % players\<close> is when \<open>players\<close> is 0.
\<close>

record GameState =
  players :: int
  hands :: "Card list list"
  currentPlayer :: number
  lastCombo :: "Combo option"
  passesInRow :: int
  started :: bool
  finished :: bool

text \<open>The object \<open>{ ok, reason?, combo? }\<close> that \<open>isLegalMove\<close> returns.\<close>

record LegalResult =
  ok :: bool
  reason :: "string option"
  combo :: "Combo option"

definition reject :: "string \<Rightarrow> LegalResult" where
  "reject why = \<lparr>ok = False, reason = Some why, combo = None\<rparr>"

text \<open>\<open>Array.prototype.findIndex\<close>: the first index whose element passes, else \<open>-1\<close>.\<close>

fun findIndex :: "('a \<Rightarrow> bool) \<Rightarrow> 'a list \<Rightarrow> int" where
  "findIndex P [] = -1"
| "findIndex P (y # ys) =
     (if P y then 0 else (let i = findIndex P ys in if i < 0 then -1 else i + 1))"

text \<open>\<open>xs.splice(idx, 1)\<close> for \<open>idx \<ge> 0\<close>.\<close>

definition splice1 :: "'a list \<Rightarrow> int \<Rightarrow> 'a list" where
  "splice1 xs idx = take (nat idx) xs @ drop (nat idx + 1) xs"

definition sameCard :: "Card \<Rightarrow> Card \<Rightarrow> bool" where
  "sameCard c h = (rank h = rank c \<and> suit h = suit c)"

text \<open>
  The membership loop of \<open>isLegalMove\<close> on the working copy of the hand: \<open>None\<close> when it
  returns \<open>card not in hand\<close>.
\<close>

fun takeCards :: "Card list \<Rightarrow> Card list \<Rightarrow> Card list option" where
  "takeCards hand [] = Some hand"
| "takeCards hand (c # cs) =
     (let idx = findIndex (sameCard c) hand
      in if idx < 0 then None else takeCards (splice1 hand idx) cs)"

definition isLegalMove :: "GameState \<Rightarrow> int \<Rightarrow> Card list \<Rightarrow> js_error + LegalResult" where
  "isLegalMove state player cs =
     (if finished state then Inr (reject ''game finished'')
      else if \<not> started state then Inr (reject ''game not started'')
      else if Num player \<noteq> currentPlayer state then Inr (reject ''not your turn'')
      else case elemAt (hands state) player of
        None \<Rightarrow> Inl TypeError
      | Some hand \<Rightarrow>
          (case takeCards hand cs of
             None \<Rightarrow> Inr (reject ''card not in hand'')
           | Some rest \<Rightarrow>
               (case detectCombo cs of
                  None \<Rightarrow> Inr (reject ''invalid combo'')
                | Some c \<Rightarrow>
                    (case lastCombo state of
                       None \<Rightarrow> Inr \<lparr>ok = True, reason = None, combo = Some c\<rparr>
                     | Some lc \<Rightarrow>
                         (case compareCombos lc c of
                            Inl e \<Rightarrow> Inl e
                          | Inr v \<Rightarrow>
                              if v > 0 then Inr \<lparr>ok = True, reason = None, combo = Some c\<rparr>
                              else Inr \<lparr>ok = False, reason = Some ''does not beat last combo'',
                                        combo = Some c\<rparr>)))))"

text \<open>The removal loop of \<open>applyMove\<close>: a card that is not found is skipped.\<close>

fun removeCards :: "Card list \<Rightarrow> Card list \<Rightarrow> Card list" where
  "removeCards hand [] = hand"
| "removeCards hand (c # cs) =
     (let idx = findIndex (sameCard c) hand
      in removeCards (if idx \<ge> 0 then splice1 hand idx else hand) cs)"

text \<open>
  \<open>applyMove\<close> works on \<open>newState.hands[player]\<close>; when that is \<open>undefined\<close> the call
  throws, in the loop or at the latest at \<open>.length\<close>.  There is no check of \<open>finished\<close>.
  Where it returns, \<open>player\<close> is an index of the array \<open>hands\<close>, far below \<open>2^53\<close>, so
  \<open>player + 1\<close> is exact.
\<close>

definition applyMove :: "GameState \<Rightarrow> int \<Rightarrow> Combo \<Rightarrow> js_error + GameState" where
  "applyMove state player c =
     (case elemAt (hands state) player of
        None \<Rightarrow> Inl TypeError
      | Some hand \<Rightarrow>
          (let hand' = removeCards hand (cards c)
           in Inr (state
                \<lparr>hands := (hands state)[nat player := hand'],
                 lastCombo := Some c,
                 passesInRow := 0,
                 finished := (if length hand' = 0 then True else finished state),
                 currentPlayer := js_rem (player + 1) (players state)\<rparr>)))"

text \<open>
  \<open>applyPass\<close> checks nothing of \<open>player\<close> or of the counters, so its three
  operations \<open>passesInRow + 1\<close>, \<open>players - 1\<close> and \<open>player + 1\<close> are the doubles'.
\<close>

definition applyPass :: "GameState \<Rightarrow> int \<Rightarrow> GameState" where
  "applyPass state player =
     (if finished state then state
      else let n = toDouble (passesInRow state + 1);
               clear = (n \<ge> toDouble (players state - 1))
           in state
                \<lparr>passesInRow := (if clear then 0 else n),
                 lastCombo := (if clear then None else lastCombo state),
                 currentPlayer := js_rem (toDouble (player + 1)) (players state)\<rparr>)"

section \<open>Choosing a move\<close>

text \<open>
  \<open>groupCardsByRank\<close> fills an object keyed by rank.  The association list below holds
  its properties in the order of their creation, each with the cards pushed so far.
\<close>

fun addToGroup :: "Card \<Rightarrow> (Rank \<times> Card list) list \<Rightarrow> (Rank \<times> Card list) list" where
  "addToGroup c [] = [(rank c, [c])]"
| "addToGroup c ((r, g) # gs) =
     (if r = rank c then (r, g @ [c]) # gs else (r, g) # addToGroup c gs)"

definition groupCardsByRank :: "Card list \<Rightarrow> (Rank \<times> Card list) list" where
  "groupCardsByRank cs = foldl (\<lambda>gs c. addToGroup c gs) [] cs"

text \<open>
  \<open>Object.entries\<close> lists the keys that are array indices first, in ascending numeric
  order (\<open>'2'\<close>, \<open>'3'\<close>, ..., \<open>'10'\<close>), then the other keys (\<open>'J'\<close>, \<open>'Q'\<close>, \<open>'K'\<close>, \<open>'A'\<close>)
  in the order of their creation.
\<close>

definition integerKeys :: "Rank list" where
  "integerKeys = [R2, R3, R4, R5, R6, R7, R8, R9, R10]"

definition objectEntries :: "(Rank \<times> Card list) list \<Rightarrow> (Rank \<times> Card list) list" where
  "objectEntries gs =
     List.map_filter (\<lambda>r. map_option (\<lambda>g. (r, g)) (map_of gs r)) integerKeys
     @ filter (\<lambda>(r, g). \<not> List.member integerKeys r) gs"

text \<open>
  One candidate of \<open>findStraights\<close>: the ranks \<open>RANKS[i] .. RANKS[i + len - 1]\<close>, the first
  card of each; \<open>None\<close> when \<open>valid\<close> ends false.  The callers keep \<open>i + len \<le> 13\<close>.
\<close>

fun straightFrom :: "(Rank \<times> Card list) list \<Rightarrow> Rank list \<Rightarrow> Card list option" where
  "straightFrom gs [] = Some []"
| "straightFrom gs (r # rs) =
     (if r = R2 then None
      else case map_of gs r of
        None \<Rightarrow> None
      | Some [] \<Rightarrow> None
      | Some (c # g) \<Rightarrow>
          (case straightFrom gs rs of None \<Rightarrow> None | Some st \<Rightarrow> Some (c # st)))"

definition findStraights :: "Card list \<Rightarrow> Card list list" where
  "findStraights hand =
     (let gs = groupCardsByRank hand
      in concat (map (\<lambda>i.
           List.map_filter (\<lambda>len. straightFrom gs (take len (drop i RANKS)))
             [3 ..< Suc (min 10 (length RANKS - i))])
           [0 ..< length RANKS - 2]))"

text \<open>
  \<open>getAllLegalMoves\<close> tries its candidates in this order and keeps each one that
  \<open>isLegalMove\<close> accepts: the singles, then per rank group the pair and the triple, then the
  straights, then the bombs.
\<close>

definition pairTriple :: "Rank \<times> Card list \<Rightarrow> Card list list" where
  "pairTriple e =
     (let g = snd e
      in if length g \<ge> 2
           then take 2 g # (if length g \<ge> 3 then [take 3 g] else [])
         else [])"

definition candidates :: "Card list \<Rightarrow> Card list list" where
  "candidates hand =
     (let rankGroups = objectEntries (groupCardsByRank hand)
      in map (\<lambda>c. [c]) hand
         @ concat (map pairTriple rankGroups)
         @ findStraights hand
         @ map snd (filter (\<lambda>e. length (snd e) = 4) rankGroups))"

fun keepLegal :: "GameState \<Rightarrow> int \<Rightarrow> Card list list \<Rightarrow> js_error + Card list list" where
  "keepLegal state player [] = Inr []"
| "keepLegal state player (m # ms) =
     (case isLegalMove state player m of
        Inl e \<Rightarrow> Inl e
      | Inr legal \<Rightarrow>
          (case keepLegal state player ms of
             Inl e \<Rightarrow> Inl e
           | Inr rest \<Rightarrow> Inr (if ok legal then m # rest else rest)))"

definition getAllLegalMoves :: "GameState \<Rightarrow> int \<Rightarrow> js_error + Card list list" where
  "getAllLegalMoves state player =
     (case elemAt (hands state) player of
        None \<Rightarrow> Inl TypeError
      | Some hand \<Rightarrow> keepLegal state player (candidates hand))"

text \<open>
  \<open>scoreOpeningMove\<close> reads \<open>hand\<close> only for a move of one card; \<open>hand\<close> is
  \<open>state.hands[player]\<close>, \<open>undefined\<close> (here \<open>None\<close>) when the seat has no hand.
\<close>

definition scoreOpeningMove :: "Card list \<Rightarrow> Card list option \<Rightarrow> js_error + int" where
  "scoreOpeningMove move hand =
     (case
        (if length move = 1 then
           (case hand of
              None \<Rightarrow> Inl TypeError
            | Some h \<Rightarrow>
                (let rankIdx = rankIndex (rank (move ! 0));
                     remainingHand = filter (\<lambda>card. \<not> (rank card = rank (move ! 0) \<and>
                                                        suit card = suit (move ! 0))) h;
                     sameRankCards = filter (\<lambda>card. rank card = rank (move ! 0)) remainingHand
                 in Inr (10 + (if rankIdx \<ge> 4 \<and> rankIdx \<le> 9 then 5 else 0)
                            - (if length sameRankCards \<ge> 1 then 3 else 0))))
         else if length move = 2 then Inr 5
         else if length move = 3 then Inr 3
         else if length move \<ge> 4 then Inr 1
         else Inr 0) of
        Inl e \<Rightarrow> Inl e
      | Inr score \<Rightarrow>
          (case detectCombo move of
             None \<Rightarrow> Inr score
           | Some c \<Rightarrow>
               if ctype c = PairT \<or> ctype c = Triple then Inr (score + 2) else Inr score))"

text \<open>\<open>moves.map(move => ({ move, score: scoreOpeningMove(move, hand, state, player) }))\<close>\<close>

fun scoreOpening :: "Card list option \<Rightarrow> Card list list \<Rightarrow> js_error + (Card list \<times> int) list" where
  "scoreOpening hand [] = Inr []"
| "scoreOpening hand (m # ms) =
     (case scoreOpeningMove m hand of
        Inl e \<Rightarrow> Inl e
      | Inr sc \<Rightarrow>
          (case scoreOpening hand ms of Inl e \<Rightarrow> Inl e | Inr rest \<Rightarrow> Inr ((m, sc) # rest)))"

text \<open>The comparator \<open>(a, b) => b.score - a.score\<close>: highest score first.\<close>

definition byScoreDesc :: "'a \<times> int \<Rightarrow> 'a \<times> int \<Rightarrow> int" where
  "byScoreDesc a b = snd b - snd a"

text \<open>\<open>scoredMoves[0]?.move || moves[0] || null\<close>; an array is never falsy.\<close>

definition selectBestOpeningMove ::
    "Card list list \<Rightarrow> GameState \<Rightarrow> int \<Rightarrow> js_error + Card list option" where
  "selectBestOpeningMove moves state player =
     (case scoreOpening (elemAt (hands state) player) moves of
        Inl e \<Rightarrow> Inl e
      | Inr scoredMoves \<Rightarrow>
          Inr (case js_sort byScoreDesc scoredMoves of
                 (m, sc) # rest \<Rightarrow> Some m
               | [] \<Rightarrow> (case moves of m # rest \<Rightarrow> Some m | [] \<Rightarrow> None)))"

definition scoreFollowingMove :: "Combo \<Rightarrow> Card list \<Rightarrow> js_error + int" where
  "scoreFollowingMove lc move =
     (case detectCombo move of
        None \<Rightarrow> Inr (-1000)
      | Some c \<Rightarrow>
          (case compareCombos lc c of
             Inl e \<Rightarrow> Inl e
           | Inr comparison \<Rightarrow>
               if comparison \<le> 0 then Inr (-1000)
               else Inr (comparison * 10
                         + (if ctype c = ctype lc \<and> length (cards c) = length (cards lc)
                              then 5 else 0)
                         - (if ctype c = Bomb4 then 20 else 0))))"

fun scoreAll :: "Combo \<Rightarrow> Card list list \<Rightarrow> js_error + (Card list \<times> int) list" where
  "scoreAll lc [] = Inr []"
| "scoreAll lc (m # ms) =
     (case scoreFollowingMove lc m of
        Inl e \<Rightarrow> Inl e
      | Inr sc \<Rightarrow>
          (case scoreAll lc ms of Inl e \<Rightarrow> Inl e | Inr rest \<Rightarrow> Inr ((m, sc) # rest)))"

definition selectBestFollowingMove ::
    "Card list list \<Rightarrow> GameState \<Rightarrow> js_error + Card list option" where
  "selectBestFollowingMove moves state =
     (case lastCombo state of
        None \<Rightarrow> Inr (case moves of m # rest \<Rightarrow> Some m | [] \<Rightarrow> None)
      | Some lc \<Rightarrow>
          (case scoreAll lc moves of
             Inl e \<Rightarrow> Inl e
           | Inr scoredMoves \<Rightarrow>
               (case js_sort byScoreDesc (filter (\<lambda>item. snd item > -1000) scoredMoves) of
                  [] \<Rightarrow> Inr None
                | (m, sc) # rest \<Rightarrow> Inr (Some m))))"

definition selectBestMove ::
    "Card list list \<Rightarrow> GameState \<Rightarrow> int \<Rightarrow> js_error + Card list option" where
  "selectBestMove moves state player =
     (if length moves = 0 then Inr None
      else if lastCombo state = None then selectBestOpeningMove moves state player
      else selectBestFollowingMove moves state)"

text \<open>\<open>aiChooseMove\<close> returns \<open>{ play }\<close>; \<open>play: null\<close> (a pass) is \<open>None\<close>.\<close>

definition aiChooseMove :: "GameState \<Rightarrow> int \<Rightarrow> js_error + Card list option" where
  "aiChooseMove state player =
     (case elemAt (hands state) player of
        None \<Rightarrow> Inl TypeError
      | Some hand \<Rightarrow>
          (case getAllLegalMoves state player of
             Inl e \<Rightarrow> Inl e
           | Inr legalMoves \<Rightarrow>
               if length legalMoves = 0 then Inr None
               else selectBestMove legalMoves state player))"

section \<open>Vocabulary of the specification\<close>

text \<open>
  A text is unrecognized when its suit glyph (the last code unit) is none of the four
  suits or its rank token (what precedes the glyph) is none of the thirteen ranks.
\<close>

definition unrecognizedText :: "jsstring \<Rightarrow> bool" where
  "unrecognizedText s =
     (drop (length s - 1) s \<notin> set (map suitString [Spade, Heart, Diamond, Club]) \<or>
      take (length s - 1) s \<notin> set (map rankString RANKS))"

text \<open>
  The canonical order of cards: by rank index, then by suit index.  A list is the
  rank-then-suit sorted sequence of \<open>raw\<close> when it is a permutation of \<open>raw\<close> that is
  sorted in this order.
\<close>

definition rankThenSuitLe :: "Card \<Rightarrow> Card \<Rightarrow> bool" where
  "rankThenSuitLe a b =
     (rankIndex (rank a) < rankIndex (rank b) \<or>
      (rankIndex (rank a) = rankIndex (rank b) \<and> suitIndex (suit a) \<le> suitIndex (suit b)))"

text \<open>All cards of the list have one rank.\<close>

definition sameRank :: "Card list \<Rightarrow> bool" where
  "sameRank raw = (\<forall>c\<in>set raw. \<forall>d\<in>set raw. rank c = rank d)"

text \<open>
  A run, in the words of the specification: three cards or more, no duplicate rank, no
  rank equal to the top rank \<open>2\<close>, and the rank indices, once sorted, consecutive.
\<close>

definition specRun :: "Card list \<Rightarrow> bool" where
  "specRun raw =
     (3 \<le> length raw \<and> distinct (map rank raw) \<and> R2 \<notin> set (map rank raw) \<and>
      successively (\<lambda>a b. b = a + 1) (sort (map (\<lambda>c. rankIndex (rank c)) raw)))"

text \<open>The shape the specification gives a card list, by its cardinality.\<close>

definition specShape :: "Card list \<Rightarrow> ComboType option" where
  "specShape raw =
     (if length raw = 0 then None
      else if length raw = 1 then Some Single
      else if length raw = 2 then (if sameRank raw then Some PairT else None)
      else if length raw = 3 then
        (if sameRank raw then Some Triple else if specRun raw then Some Straight else None)
      else if length raw = 4 then
        (if sameRank raw then Some Bomb4 else if specRun raw then Some Straight else None)
      else if specRun raw then Some Straight else None)"

text \<open>
  The primary rank the specification asks for: the rank of the highest card for a
  Straight, the shared rank otherwise.
\<close>

definition specPrimary :: "ComboType \<Rightarrow> Card list \<Rightarrow> Rank \<Rightarrow> bool" where
  "specPrimary t raw r =
     (if t = Straight
        then r \<in> set (map rank raw) \<and> (\<forall>c\<in>set raw. rankIndex (rank c) \<le> rankIndex r)
      else (\<forall>c\<in>set raw. rank c = r))"

text \<open>
  The result of a comparison as the engine numbers it: \<open>1\<close> when the second argument is
  the greater (\<open>next\<close> beats \<open>prev\<close>), \<open>-1\<close> when it is the less, \<open>0\<close> when equal.
\<close>

definition cmpOrder :: "int \<Rightarrow> int \<Rightarrow> int" where
  "cmpOrder p n = (if p < n then 1 else if n < p then -1 else 0)"

text \<open>The highest card of a list in the canonical order.\<close>

definition isHighest :: "Card list \<Rightarrow> Card \<Rightarrow> bool" where
  "isHighest cs h = (h \<in> set cs \<and> (\<forall>c\<in>set cs. rankThenSuitLe c h))"

text \<open>
  The hand holds the proposed cards when it has every card value at least as often as
  the proposal lists it; otherwise some proposed card is missing from the hand.
\<close>

definition handHolds :: "Card list \<Rightarrow> Card list \<Rightarrow> bool" where
  "handHolds hand cs = (\<forall>c\<in>set cs. count_list cs c \<le> count_list hand c)"

text \<open>The comparator says that \<open>c\<close> beats \<open>lc\<close>: its result is greater.\<close>

definition beats :: "Combo \<Rightarrow> Combo \<Rightarrow> bool" where
  "beats lc c = (case compareCombos lc c of Inl e \<Rightarrow> False | Inr v \<Rightarrow> v > 0)"

text \<open>What the specification asks of \<open>CheckLegalMove\<close>, check by check.\<close>

definition accept :: "Combo \<Rightarrow> LegalResult" where
  "accept c = \<lparr>ok = True, reason = None, combo = Some c\<rparr>"

definition specCheck :: "GameState \<Rightarrow> int \<Rightarrow> Card list \<Rightarrow> LegalResult" where
  "specCheck s p cs =
     (if finished s then reject ''game finished''
      else if \<not> started s then reject ''game not started''
      else if currentPlayer s \<noteq> Num p then reject ''not your turn''
      else if \<not> handHolds (hands s ! nat p) cs then reject ''card not in hand''
      else case detectCombo cs of
        None \<Rightarrow> reject ''invalid combo''
      | Some c \<Rightarrow>
          (case lastCombo s of
             None \<Rightarrow> accept c
           | Some lc \<Rightarrow>
               if beats lc c then accept c
               else \<lparr>ok = False, reason = Some ''does not beat last combo'', combo = Some c\<rparr>))"


text \<open>
  A safe integer (\<open>Number.isSafeInteger\<close>): below \<open>2^53\<close> in magnitude.  The counters
  and seat indices of a table are safe integers: \<open>players\<close> counts the hands of an array,
  \<open>passesInRow\<close> stays below it and a seat is an index of it.
\<close>

definition safeInteger :: "int \<Rightarrow> bool" where
  "safeInteger x = (\<bar>x\<bar> < 2 ^ 53)"

text \<open>A table beyond the safe integers: \<open>2^53\<close> passes among \<open>2^54\<close> players.\<close>

definition hugeTable :: GameState where
  "hugeTable =
     \<lparr>players = 2 ^ 54, hands = [[], []], currentPlayer = Num 0, lastCombo = None,
      passesInRow = 2 ^ 53, started = True, finished = False\<rparr>"

section \<open>Example tables\<close>

definition card :: "Rank \<Rightarrow> Suit \<Rightarrow> Card" where
  "card r s = \<lparr>rank = r, suit = s\<rparr>"

text \<open>
  A table of two seats in play: seat 0 is to move and holds \<open>3\<clubsuit> 3\<spadesuit> 5\<heartsuit>\<close>, seat 1 holds
  \<open>4\<heartsuit>\<close>, nothing lies on the table.
\<close>

definition liveTable :: GameState where
  "liveTable =
     \<lparr>players = 2,
      hands = [[card R3 Club, card R3 Spade, card R5 Heart], [card R4 Heart]],
      currentPlayer = Num 0, lastCombo = None, passesInRow = 0,
      started = True, finished = False\<rparr>"

text \<open>The same table with the pair \<open>3\<clubsuit> 3\<diamondsuit>\<close> to beat.\<close>

definition pairTable :: GameState where
  "pairTable =
     liveTable\<lparr>lastCombo := Some (mkCombo PairT [card R3 Club, card R3 Diamond] R3)\<rparr>"

text \<open>
  A finished table: seat 0 has played its last card, seat 1 still holds \<open>4\<heartsuit>\<close> and is
  next in turn.
\<close>

definition finishedTable :: GameState where
  "finishedTable =
     \<lparr>players = 2, hands = [[], [card R4 Heart]],
      currentPlayer = Num 1, lastCombo = Some (mkCombo Single [card R5 Heart] R5),
      passesInRow = 0, started = True, finished = True\<rparr>"

section \<open>Properties\<close>

subsection \<open>Text form of a card\<close>

lemma includesStr_None: "x \<notin> set (map str ys) \<Longrightarrow> includesStr str ys x = None"
  by (induction ys) auto

lemma parseCard_unrecognized: "unrecognizedText s \<Longrightarrow> parseCard s = None"
  by (auto simp: unrecognizedText_def parseCard_def Let_def includesStr_None
      split: option.splits)

lemma parseCard_of_cardToString: "parseCard (cardToString c) = Some c"
  by (cases c; cases "rank c"; cases "suit c";
      simp add: parseCard_def cardToString_def RANKS_def)

text \<open>
  C9.  Parsing the printed form of a card gives the card back, for each of the 52 cards
  (the rank \<open>10\<close> with its two code units included); and a text whose suit glyph or rank
  token is not recognized parses to the absent result \<open>None\<close>.
\<close>

theorem parse_print_roundtrip:
  "parseCard (cardToString c) = Some c \<and> (unrecognizedText s \<longrightarrow> parseCard s = None)"
  by (simp add: parseCard_of_cardToString parseCard_unrecognized)

theorem parse_print_roundtrip_witness:
  "parseCard (cardToString \<lparr>rank = R10, suit = Heart\<rparr>) = Some \<lparr>rank = R10, suit = Heart\<rparr>
   \<and> unrecognizedText [0x31, 0x2665] \<and> parseCard [0x31, 0x2665] = None"
  using parse_print_roundtrip [of "\<lparr>rank = R10, suit = Heart\<rparr>" "[0x31, 0x2665]"]
  by (simp add: unrecognizedText_def RANKS_def)

subsection \<open>Sorting\<close>

lemma mset_insert_by: "mset (insert_by cmp x xs) = add_mset x (mset xs)"
  by (induction xs) auto

lemma mset_js_sort: "mset (js_sort cmp xs) = mset xs"
  by (induction xs) (auto simp: js_sort_def mset_insert_by)

lemma set_js_sort: "set (js_sort cmp xs) = set xs"
  using mset_js_sort [of cmp xs] by (metis set_mset_mset)

lemma length_js_sort: "length (js_sort cmp xs) = length xs"
  using mset_js_sort [of cmp xs] by (metis size_mset)

lemma set_insert_by: "set (insert_by cmp x xs) = insert x (set xs)"
  by (induction xs) auto

lemma sorted_insert_by:
  assumes tot: "\<And>a b. le a b \<or> le b a"
    and tr: "\<And>a b c. le a b \<Longrightarrow> le b c \<Longrightarrow> le a c"
    and cmp: "\<And>a b. (cmp a b \<le> 0) = le a b"
  shows "sorted_wrt le xs \<Longrightarrow> sorted_wrt le (insert_by cmp x xs)"
proof (induction xs)
  case Nil
  then show ?case by simp
next
  case (Cons y ys)
  show ?case
  proof (cases "cmp x y \<le> 0")
    case True
    then have "le x y" by (simp add: cmp)
    with Cons.prems tr show ?thesis using True by auto
  next
    case False
    then have "le y x" using tot [of x y] by (simp add: cmp)
    with Cons show ?thesis using False by (auto simp: set_insert_by)
  qed
qed

lemma sorted_js_sort:
  assumes tot: "\<And>a b. le a b \<or> le b a"
    and tr: "\<And>a b c. le a b \<Longrightarrow> le b c \<Longrightarrow> le a c"
    and cmp: "\<And>a b. (cmp a b \<le> 0) = le a b"
  shows "sorted_wrt le (js_sort cmp xs)"
proof (induction xs)
  case Nil
  then show ?case by (simp add: js_sort_def)
next
  case (Cons x xs)
  have "js_sort cmp (x # xs) = insert_by cmp x (js_sort cmp xs)"
    by (simp add: js_sort_def)
  with Cons sorted_insert_by [of le cmp, OF tot tr cmp] show ?case by simp
qed

lemma cmpRankSuit_le: "(cmpRankSuit a b \<le> 0) = rankThenSuitLe a b"
  by (auto simp: cmpRankSuit_def rankThenSuitLe_def Let_def)

lemma rankThenSuitLe_total: "rankThenSuitLe a b \<or> rankThenSuitLe b a"
  by (auto simp: rankThenSuitLe_def)

lemma rankThenSuitLe_trans: "rankThenSuitLe a b \<Longrightarrow> rankThenSuitLe b c \<Longrightarrow> rankThenSuitLe a c"
  by (auto simp: rankThenSuitLe_def)

lemma rankThenSuitLe_refl: "rankThenSuitLe a a"
  by (simp add: rankThenSuitLe_def)

lemma sorted_sortCards: "sorted_wrt rankThenSuitLe (sortCardsByRankSuit xs)"
  unfolding sortCardsByRankSuit_def
  by (rule sorted_js_sort [OF rankThenSuitLe_total rankThenSuitLe_trans cmpRankSuit_le])

lemma mset_sortCards: "mset (sortCardsByRankSuit xs) = mset xs"
  by (simp add: sortCardsByRankSuit_def mset_js_sort)

lemma set_sortCards: "set (sortCardsByRankSuit xs) = set xs"
  by (simp add: sortCardsByRankSuit_def set_js_sort)

lemma length_sortCards: "length (sortCardsByRankSuit xs) = length xs"
  by (simp add: sortCardsByRankSuit_def length_js_sort)

lemma rankIndex_inj: "rankIndex a = rankIndex b \<Longrightarrow> a = b"
  by (cases a; cases b; simp add: rankIndex_def RANKS_def)

lemma suitIndex_inj: "suitIndex a = suitIndex b \<Longrightarrow> a = b"
  by (cases a; cases b; simp add: suitIndex_def SUIT_ORDER_def)

subsection \<open>Detecting a combination\<close>

lemma consecutive_successively:
  "consecutive rs = successively (\<lambda>a b. b = a + 1) (map rankIndex rs)"
  by (induction rs rule: consecutive.induct) auto

lemma rank_indices_sorted:
  "map (\<lambda>c. rankIndex (rank c)) (sortCardsByRankSuit raw)
     = sort (map (\<lambda>c. rankIndex (rank c)) raw)"
proof -
  let ?f = "\<lambda>c. rankIndex (rank c)"
  let ?cs = "sortCardsByRankSuit raw"
  have "sorted_wrt (\<lambda>a b. ?f a \<le> ?f b) ?cs"
    by (rule sorted_wrt_mono_rel [OF _ sorted_sortCards]) (auto simp: rankThenSuitLe_def)
  then have s: "sorted (map ?f ?cs)" by (simp add: sorted_map)
  have m: "mset (map ?f ?cs) = mset (map ?f raw)"
    by (simp add: mset_sortCards)
  show ?thesis using properties_for_sort [OF m s] by simp
qed

lemma isStraight_iff:
  "isStraight xs =
     (3 \<le> length xs \<and> R2 \<notin> set (map rank xs) \<and> distinct (map rank xs) \<and>
      consecutive (map rank xs))"
proof -
  have "(length (remdups (map rank xs)) = length (map rank xs)) = distinct (map rank xs)"
    by (simp only: length_remdups_eq remdups_id_iff_distinct)
  then have "(length (remdups (map rank xs)) \<noteq> length xs) = (\<not> distinct (map rank xs))"
    by simp
  then show ?thesis
    by (auto simp: isStraight_def Let_def list_ex_iff simp del: length_remdups_eq)
qed

lemma isStraight_sorted: "isStraight (sortCardsByRankSuit raw) = specRun raw"
proof -
  let ?cs = "sortCardsByRankSuit raw"
  have m: "mset (map rank ?cs) = mset (map rank raw)" by (simp add: mset_sortCards)
  have d: "distinct (map rank ?cs) = distinct (map rank raw)"
    by (rule mset_eq_imp_distinct_iff [OF m])
  have s: "set (map rank ?cs) = set (map rank raw)" by (simp add: set_sortCards)
  have "map rankIndex (map rank ?cs) = sort (map (\<lambda>c. rankIndex (rank c)) raw)"
    using rank_indices_sorted [of raw] by (simp add: comp_def)
  then have c: "consecutive (map rank ?cs)
             = successively (\<lambda>a b. b = a + 1) (sort (map (\<lambda>c. rankIndex (rank c)) raw))"
    by (simp only: consecutive_successively)
  have "isStraight ?cs =
     (3 \<le> length ?cs \<and> R2 \<notin> set (map rank ?cs) \<and> distinct (map rank ?cs) \<and>
      consecutive (map rank ?cs))"
    by (rule isStraight_iff)
  also have "\<dots> = (3 \<le> length raw \<and> R2 \<notin> set (map rank raw) \<and> distinct (map rank raw) \<and>
      successively (\<lambda>a b. b = a + 1) (sort (map (\<lambda>c. rankIndex (rank c)) raw)))"
    by (simp only: c d s length_sortCards)
  also have "\<dots> = specRun raw"
    unfolding specRun_def by blast
  finally show ?thesis .
qed

lemma sortCards_Nil: "sortCardsByRankSuit [] = []"
  by (simp add: sortCardsByRankSuit_def js_sort_def)

lemma sorted_head_mem:
  assumes "raw \<noteq> []"
  shows "sortCardsByRankSuit raw ! 0 \<in> set raw"
proof -
  have "0 < length (sortCardsByRankSuit raw)" using assms by (simp add: length_sortCards)
  then have "sortCardsByRankSuit raw ! 0 \<in> set (sortCardsByRankSuit raw)" by (rule nth_mem)
  then show ?thesis by (simp only: set_sortCards)
qed

lemma all_same_sorted:
  assumes "raw \<noteq> []"
  shows "list_all (\<lambda>c. rank c = rank (sortCardsByRankSuit raw ! 0)) (sortCardsByRankSuit raw)
           = sameRank raw"
proof -
  let ?h = "sortCardsByRankSuit raw ! 0"
  have mem: "?h \<in> set raw" by (rule sorted_head_mem [OF assms])
  have "list_all (\<lambda>c. rank c = rank ?h) (sortCardsByRankSuit raw)
          = (\<forall>c\<in>set raw. rank c = rank ?h)"
    by (simp only: list_all_iff set_sortCards)
  also have "\<dots> = sameRank raw"
  proof
    assume a: "\<forall>c\<in>set raw. rank c = rank ?h"
    show "sameRank raw" unfolding sameRank_def
    proof (intro ballI)
      fix c d assume "c \<in> set raw" "d \<in> set raw"
      with a have "rank c = rank ?h" "rank d = rank ?h" by blast+
      then show "rank c = rank d" by simp
    qed
  next
    assume "sameRank raw"
    with mem show "\<forall>c\<in>set raw. rank c = rank ?h" unfolding sameRank_def by blast
  qed
  finally show ?thesis .
qed

lemma pair_same_sorted:
  assumes "length raw = 2"
  shows "(rank (sortCardsByRankSuit raw ! 0) = rank (sortCardsByRankSuit raw ! 1)) = sameRank raw"
proof -
  let ?cs = "sortCardsByRankSuit raw"
  have "length ?cs = Suc (Suc 0)" using assms by (simp add: length_sortCards)
  then obtain a b where ab: "?cs = [a, b]"
    by (auto simp: length_Suc_conv)
  have "set raw = set ?cs" by (simp only: set_sortCards)
  then have sr: "set raw = {a, b}" by (simp add: ab)
  have "sameRank raw = (rank a = rank b)"
    unfolding sameRank_def sr by auto
  then show ?thesis by (simp add: ab)
qed

lemma sorted_last_max:
  assumes "sorted_wrt rankThenSuitLe xs" and "c \<in> set xs"
  shows "rankIndex (rank c) \<le> rankIndex (rank (xs ! (length xs - 1)))"
proof -
  from assms(2) obtain i where i: "i < length xs" "xs ! i = c" by (auto simp: in_set_conv_nth)
  show ?thesis
  proof (cases "i = length xs - 1")
    case True
    with i show ?thesis by simp
  next
    case False
    with i have "i < length xs - 1" "length xs - 1 < length xs" by auto
    with assms(1) have "rankThenSuitLe (xs ! i) (xs ! (length xs - 1))"
      by (simp add: sorted_wrt_nth_less)
    with i show ?thesis by (auto simp: rankThenSuitLe_def)
  qed
qed

lemma highestRank_in_range:
  "isStraight cs \<Longrightarrow> length cs - 1 < length (sortCardsByRankSuit cs)"
  by (auto simp: isStraight_def length_sortCards split: if_splits)

lemma highestRank_primary:
  assumes "raw \<noteq> []"
  shows "specPrimary Straight raw (highestRank (sortCardsByRankSuit raw))"
proof -
  let ?cs = "sortCardsByRankSuit raw"
  let ?s2 = "sortCardsByRankSuit ?cs"
  have len: "length ?s2 = length raw" "length ?cs = length raw" by (simp_all add: length_sortCards)
  have set2: "set ?s2 = set raw" by (simp add: set_sortCards)
  have "?s2 ! (length ?s2 - 1) \<in> set ?s2" using assms len by (intro nth_mem) auto
  then have mem: "highestRank ?cs \<in> set (map rank raw)"
    unfolding highestRank_def using set2 len by auto
  have "\<forall>c\<in>set raw. rankIndex (rank c) \<le> rankIndex (highestRank ?cs)"
    unfolding highestRank_def
    using sorted_last_max [OF sorted_sortCards, of _ ?cs] set2 len by auto
  with mem show ?thesis by (simp add: specPrimary_def)
qed

lemma shared_primary:
  assumes "raw \<noteq> []" "sameRank raw" "t \<noteq> Straight"
  shows "specPrimary t raw (rank (sortCardsByRankSuit raw ! 0))"
proof -
  have "sortCardsByRankSuit raw ! 0 \<in> set raw" by (rule sorted_head_mem [OF assms(1)])
  with assms(2) have "\<forall>c\<in>set raw. rank c = rank (sortCardsByRankSuit raw ! 0)"
    unfolding sameRank_def by blast
  with assms(3) show ?thesis by (simp add: specPrimary_def)
qed

lemma single_sameRank: "length raw = 1 \<Longrightarrow> sameRank raw"
  by (cases raw) (auto simp: sameRank_def)

text \<open>
  C1.  \<open>detectCombo\<close> classifies every list of cards by the cardinality rules: no cards
  give none; one card a Single; two a Pair iff the ranks are equal; three a Triple iff all
  ranks are equal, else a Straight iff they form a run; four a Bomb iff all ranks are
  equal, else a Straight iff they form a run; five or more a Straight iff they form a run;
  none in every other case.  The combination holds the rank-then-suit sorted sequence of
  the input, and its primary rank is the shared rank, or the rank of the highest card for
  a Straight.
\<close>

theorem detectCombo_classifies:
  "(case specShape raw of
      None \<Rightarrow> detectCombo raw = None
    | Some t \<Rightarrow>
        (\<exists>k. detectCombo raw = Some k \<and> ctype k = t \<and>
             mset (cards k) = mset raw \<and> sorted_wrt rankThenSuitLe (cards k) \<and>
             specPrimary t raw (primaryRank k)))"
proof (cases "raw = []")
  case True
  then show ?thesis by (simp add: specShape_def detectCombo_def sortCards_Nil)
next
  case False
  note ne = this
  let ?cs = "sortCardsByRankSuit raw"
  note basics = length_sortCards mkCombo_def mset_sortCards sorted_sortCards
  have p: "\<And>t. sameRank raw \<Longrightarrow> t \<noteq> Straight \<Longrightarrow> specPrimary t raw (rank (?cs ! 0))"
    using shared_primary [OF ne] by simp
  have h: "specPrimary Straight raw (highestRank ?cs)"
    by (rule highestRank_primary [OF ne])
  have all: "list_all (\<lambda>c. rank c = rank (?cs ! 0)) ?cs = sameRank raw"
    by (rule all_same_sorted [OF ne])
  have ne': "?cs \<noteq> []" using ne length_sortCards [of raw] by auto
  have "0 < length raw" using ne by simp
  then consider "length raw = 1" | "length raw = 2" | "length raw = 3" | "length raw = 4"
    | "5 \<le> length raw"
    by arith
  then show ?thesis
  proof cases
    case 1
    then show ?thesis
      using ne' p [of Single] single_sameRank [of raw]
      by (simp add: specShape_def detectCombo_def Let_def basics)
  next
    case 2
    then show ?thesis
      using ne' p [of PairT] pair_same_sorted [of raw]
      by (simp add: specShape_def detectCombo_def Let_def basics)
  next
    case 3
    then show ?thesis
      using ne' p [of Triple] h
      by (simp add: specShape_def detectCombo_def Let_def basics all isStraight_sorted)
  next
    case 4
    then show ?thesis
      using ne' p [of Bomb4] h
      by (simp add: specShape_def detectCombo_def Let_def basics all isStraight_sorted)
  next
    case 5
    then show ?thesis
      using ne ne' h
      by (simp add: specShape_def detectCombo_def Let_def basics isStraight_sorted)
  qed
qed

theorem detectCombo_classifies_witness:
  "specShape [\<lparr>rank = R5, suit = Spade\<rparr>, \<lparr>rank = R3, suit = Spade\<rparr>,
              \<lparr>rank = R4, suit = Heart\<rparr>] = Some Straight \<and>
   detectCombo [\<lparr>rank = R5, suit = Spade\<rparr>, \<lparr>rank = R3, suit = Spade\<rparr>,
                \<lparr>rank = R4, suit = Heart\<rparr>]
     = Some \<lparr>ctype = Straight,
              cards = [\<lparr>rank = R3, suit = Spade\<rparr>, \<lparr>rank = R4, suit = Heart\<rparr>,
                       \<lparr>rank = R5, suit = Spade\<rparr>],
              primaryRank = R5\<rparr>"
  using detectCombo_classifies [of "[\<lparr>rank = R5, suit = Spade\<rparr>, \<lparr>rank = R3, suit = Spade\<rparr>,
              \<lparr>rank = R4, suit = Heart\<rparr>]"]
  by (simp add: specShape_def sameRank_def specRun_def rankIndex_def RANKS_def
      detectCombo_def sortCardsByRankSuit_def js_sort_def cmpRankSuit_def suitIndex_def
      SUIT_ORDER_def isStraight_def highestRank_def mkCombo_def Let_def)

subsection \<open>Comparing combinations\<close>

lemma Math_sign_cmpOrder: "Math_sign (n - p) = cmpOrder p n"
  by (simp add: Math_sign_def cmpOrder_def)

lemma sorted_last_upper:
  assumes "sorted_wrt rankThenSuitLe xs" and "c \<in> set xs"
  shows "rankThenSuitLe c (xs ! (length xs - 1))"
proof -
  from assms(2) obtain i where i: "i < length xs" "xs ! i = c" by (auto simp: in_set_conv_nth)
  show ?thesis
  proof (cases "i = length xs - 1")
    case True
    with i show ?thesis by (simp add: rankThenSuitLe_refl)
  next
    case False
    with i have "i < length xs - 1" "length xs - 1 < length xs" by auto
    with assms(1) have "rankThenSuitLe (xs ! i) (xs ! (length xs - 1))"
      by (simp add: sorted_wrt_nth_less)
    with i show ?thesis by simp
  qed
qed

lemma sorted_last_isHighest:
  assumes "cs \<noteq> []"
  shows "isHighest cs (sortCardsByRankSuit cs ! (length cs - 1))"
proof -
  let ?s = "sortCardsByRankSuit cs"
  have len: "length ?s = length cs" by (rule length_sortCards)
  have "length cs - 1 < length ?s" using assms len by simp
  then have "?s ! (length cs - 1) \<in> set ?s" by (rule nth_mem)
  then have mem: "?s ! (length cs - 1) \<in> set cs" by (simp only: set_sortCards)
  have "\<forall>c\<in>set cs. rankThenSuitLe c (?s ! (length cs - 1))"
  proof
    fix c assume "c \<in> set cs"
    then have "c \<in> set ?s" by (simp only: set_sortCards)
    from sorted_last_upper [OF sorted_sortCards this] show "rankThenSuitLe c (?s ! (length cs - 1))"
      by (simp only: len)
  qed
  with mem show ?thesis by (simp add: isHighest_def)
qed

lemma rankThenSuitLe_antisym:
  assumes "rankThenSuitLe a b" "rankThenSuitLe b a"
  shows "a = b"
proof -
  from assms have "rankIndex (rank a) = rankIndex (rank b)" "suitIndex (suit a) = suitIndex (suit b)"
    by (auto simp: rankThenSuitLe_def)
  then have "rank a = rank b" "suit a = suit b"
    by (auto dest: rankIndex_inj suitIndex_inj)
  then show ?thesis by simp
qed

lemma isHighest_unique: "isHighest cs h \<Longrightarrow> isHighest cs h' \<Longrightarrow> h = h'"
  unfolding isHighest_def by (blast intro: rankThenSuitLe_antisym)

lemma elemAt_last_sorted:
  assumes "cs \<noteq> []"
  shows "elemAt (sortCardsByRankSuit cs) (int (length cs) - 1)
           = Some (sortCardsByRankSuit cs ! (length cs - 1))"
proof -
  have "0 < length cs" using assms by simp
  then have "nat (int (length cs) - 1) = length cs - 1" "0 \<le> int (length cs) - 1"
    by auto
  then show ?thesis by (simp add: elemAt_def length_sortCards)
qed

text \<open>
  C2.  For combinations \<open>prev\<close> and \<open>next\<close> (their card lists are not empty),
  \<open>compareCombos\<close> makes the five checks in order: against a Bomb only a Bomb compares,
  by primary rank, and anything else is less; else a Bomb is greater; else a different
  type or a different number of cards is less; else the primary ranks are compared in
  rank order; and at equal primary rank the suits of the two highest cards are compared.
\<close>

theorem compareCombos_checks:
  assumes "cards prev \<noteq> []" and "cards next \<noteq> []"
  shows "\<exists>hp hn. isHighest (cards prev) hp \<and> isHighest (cards next) hn \<and>
     compareCombos prev next = Inr
       (if ctype prev = Bomb4 then
          (if ctype next = Bomb4
             then cmpOrder (rankIndex (primaryRank prev)) (rankIndex (primaryRank next))
           else -1)
        else if ctype next = Bomb4 then 1
        else if ctype prev \<noteq> ctype next \<or> length (cards prev) \<noteq> length (cards next) then -1
        else if primaryRank prev \<noteq> primaryRank next
          then cmpOrder (rankIndex (primaryRank prev)) (rankIndex (primaryRank next))
        else cmpOrder (suitIndex (suit hp)) (suitIndex (suit hn)))"
proof -
  let ?hp = "sortCardsByRankSuit (cards prev) ! (length (cards prev) - 1)"
  let ?hn = "sortCardsByRankSuit (cards next) ! (length (cards next) - 1)"
  have hp: "isHighest (cards prev) ?hp" by (rule sorted_last_isHighest [OF assms(1)])
  have hn: "isHighest (cards next) ?hn" by (rule sorted_last_isHighest [OF assms(2)])
  have z: "\<And>a b. (cmpOrder (rankIndex a) (rankIndex b) = 0) = (a = b)"
    by (auto simp: cmpOrder_def dest: rankIndex_inj)
  have "compareCombos prev next = Inr
       (if ctype prev = Bomb4 then
          (if ctype next = Bomb4
             then cmpOrder (rankIndex (primaryRank prev)) (rankIndex (primaryRank next))
           else -1)
        else if ctype next = Bomb4 then 1
        else if ctype prev \<noteq> ctype next \<or> length (cards prev) \<noteq> length (cards next) then -1
        else if primaryRank prev \<noteq> primaryRank next
          then cmpOrder (rankIndex (primaryRank prev)) (rankIndex (primaryRank next))
        else cmpOrder (suitIndex (suit ?hp)) (suitIndex (suit ?hn)))"
    unfolding compareCombos_def elemAt_last_sorted [OF assms(1)] elemAt_last_sorted [OF assms(2)]
    by (simp add: Let_def Math_sign_cmpOrder z)
  with hp hn show ?thesis by blast
qed

theorem compareCombos_checks_witness:
  "cards (mkCombo PairT [\<lparr>rank = R5, suit = Club\<rparr>, \<lparr>rank = R5, suit = Diamond\<rparr>] R5) \<noteq> [] \<and>
   cards (mkCombo PairT [\<lparr>rank = R5, suit = Heart\<rparr>, \<lparr>rank = R5, suit = Spade\<rparr>] R5) \<noteq> [] \<and>
   compareCombos (mkCombo PairT [\<lparr>rank = R5, suit = Club\<rparr>, \<lparr>rank = R5, suit = Diamond\<rparr>] R5)
                 (mkCombo PairT [\<lparr>rank = R5, suit = Heart\<rparr>, \<lparr>rank = R5, suit = Spade\<rparr>] R5)
     = Inr 1"
  using compareCombos_checks
    [of "mkCombo PairT [\<lparr>rank = R5, suit = Club\<rparr>, \<lparr>rank = R5, suit = Diamond\<rparr>] R5"
        "mkCombo PairT [\<lparr>rank = R5, suit = Heart\<rparr>, \<lparr>rank = R5, suit = Spade\<rparr>] R5"]
  by (simp add: mkCombo_def compareCombos_def Math_sign_def rankIndex_def RANKS_def
      elemAt_def sortCardsByRankSuit_def js_sort_def cmpRankSuit_def suitIndex_def
      SUIT_ORDER_def Let_def)

subsection \<open>Checking a move\<close>

lemma sameCard_eq: "sameCard c = (\<lambda>h. h = c)"
  by (rule ext) (auto simp: sameCard_def)

lemma findIndex_neg: "(findIndex P xs < 0) = (\<not> (\<exists>x\<in>set xs. P x))"
  by (induction xs) (auto simp: Let_def)

lemma splice1_findIndex:
  "c \<in> set xs \<Longrightarrow> splice1 xs (findIndex (\<lambda>h. h = c) xs) = remove1 c xs"
proof (induction xs)
  case Nil
  then show ?case by simp
next
  case (Cons x xs)
  show ?case
  proof (cases "x = c")
    case True
    then show ?thesis by (simp add: splice1_def)
  next
    case False
    with Cons.prems have mem: "c \<in> set xs" by simp
    then have nn: "\<not> findIndex (\<lambda>h. h = c) xs < 0" by (simp add: findIndex_neg)
    then have "nat (findIndex (\<lambda>h. h = c) xs + 1) = Suc (nat (findIndex (\<lambda>h. h = c) xs))"
      by simp
    with False nn Cons.IH [OF mem] show ?thesis
      by (simp add: splice1_def Let_def)
  qed
qed

lemma takeCards_mset:
  "takeCards hand cs =
     (if mset cs \<subseteq># mset hand then Some (foldl (\<lambda>h c. remove1 c h) hand cs) else None)"
proof (induction cs arbitrary: hand)
  case Nil
  then show ?case by simp
next
  case (Cons c cs)
  show ?case
  proof (cases "c \<in> set hand")
    case False
    then have "findIndex (sameCard c) hand < 0" by (simp add: findIndex_neg sameCard_eq)
    moreover have "\<not> mset (c # cs) \<subseteq># mset hand"
      using False by (auto simp: insert_subset_eq_iff)
    ultimately show ?thesis by (simp add: Let_def)
  next
    case True
    then have a: "\<not> findIndex (sameCard c) hand < 0" by (simp add: findIndex_neg sameCard_eq)
    have b: "splice1 hand (findIndex (sameCard c) hand) = remove1 c hand"
      using splice1_findIndex [OF True] by (simp add: sameCard_eq)
    have c: "(mset (c # cs) \<subseteq># mset hand) = (mset cs \<subseteq># mset (remove1 c hand))"
      using True by (simp add: insert_subset_eq_iff)
    show ?thesis
      using a b Cons.IH [of "remove1 c hand"] c by (simp add: Let_def)
  qed
qed

lemma handHolds_mset: "handHolds hand cs = (mset cs \<subseteq># mset hand)"
proof
  assume h: "handHolds hand cs"
  show "mset cs \<subseteq># mset hand"
  proof (rule mset_subset_eqI)
    fix a
    show "count (mset cs) a \<le> count (mset hand) a"
    proof (cases "a \<in> set cs")
      case True
      with h show ?thesis by (simp add: handHolds_def count_mset)
    next
      case False
      then have "count (mset cs) a = 0" by (rule count_mset_0_iff [THEN iffD2])
      then show ?thesis by linarith
    qed
  qed
next
  assume "mset cs \<subseteq># mset hand"
  then have "\<And>a. count (mset cs) a \<le> count (mset hand) a" by (rule mset_subset_eq_count)
  then show "handHolds hand cs" by (simp add: handHolds_def count_mset)
qed

lemma takeCards_handHolds:
  "takeCards hand cs =
     (if handHolds hand cs then Some (foldl (\<lambda>h c. remove1 c h) hand cs) else None)"
  by (simp add: takeCards_mset handHolds_mset)

lemma detectCombo_cards: "detectCombo cs = Some c \<Longrightarrow> cards c = sortCardsByRankSuit cs"
  by (auto simp: detectCombo_def Let_def mkCombo_def split: if_splits)

lemma detectCombo_nonempty: "detectCombo cs = Some c \<Longrightarrow> cards c \<noteq> []"
proof -
  assume d: "detectCombo cs = Some c"
  then have "cs \<noteq> []" by (auto simp: detectCombo_def sortCards_Nil)
  then have "length (sortCardsByRankSuit cs) \<noteq> 0" by (simp add: length_sortCards)
  with detectCombo_cards [OF d] show ?thesis by auto
qed

lemma compareCombos_total:
  assumes "cards next \<noteq> []"
  shows "\<exists>v. compareCombos prev next = Inr v"
proof (cases "cards prev = []")
  case True
  with assms have "length (cards prev) \<noteq> length (cards next)" by simp
  then show ?thesis by (simp add: compareCombos_def Let_def)
next
  case False
  show ?thesis
    unfolding compareCombos_def elemAt_last_sorted [OF False] elemAt_last_sorted [OF assms]
    by (simp add: Let_def)
qed

lemma elemAt_valid: "0 \<le> p \<Longrightarrow> p < int (length xs) \<Longrightarrow> elemAt xs p = Some (xs ! nat p)"
  by (simp add: elemAt_def)

lemma isLegalMove_seat:
  assumes "0 \<le> p" and "p < int (length (hands s))"
  shows "isLegalMove s p cs = Inr (specCheck s p cs)"
proof (cases "detectCombo cs")
  case None
  then show ?thesis
    by (auto simp: isLegalMove_def specCheck_def elemAt_valid [OF assms] takeCards_handHolds
        split: option.splits)
next
  case (Some c)
  show ?thesis
  proof (cases "lastCombo s")
    case None
    with Some show ?thesis
      by (auto simp: isLegalMove_def specCheck_def elemAt_valid [OF assms] takeCards_handHolds
          accept_def split: option.splits)
  next
    case (Some lc)
    from compareCombos_total [OF detectCombo_nonempty [OF \<open>detectCombo cs = Some c\<close>], of lc]
    obtain v where v: "compareCombos lc c = Inr v" by blast
    with Some \<open>detectCombo cs = Some c\<close> show ?thesis
      by (auto simp: isLegalMove_def specCheck_def elemAt_valid [OF assms] takeCards_handHolds
          accept_def beats_def split: option.splits)
  qed
qed

lemma isLegalMove_specCheck:
  assumes "currentPlayer s = Num p \<Longrightarrow> 0 \<le> p \<and> p < int (length (hands s))"
  shows "isLegalMove s p cs = Inr (specCheck s p cs)"
proof (cases "finished s \<or> \<not> started s \<or> currentPlayer s \<noteq> Num p")
  case True
  then show ?thesis by (auto simp: isLegalMove_def specCheck_def)
next
  case False
  with assms show ?thesis by (simp add: isLegalMove_seat)
qed

text \<open>
  C3.  In a state whose current player is a seat of the table, \<open>isLegalMove\<close> returns the
  result of the checks in order: \<open>game finished\<close>, \<open>game not started\<close>, \<open>not your turn\<close>,
  \<open>card not in hand\<close> when the hand does not hold the proposed cards, \<open>invalid combo\<close> when
  the detector returns none; then ok with the detected combination when nothing is to
  beat or when the comparator says it beats the last combination, and the failure
  \<open>does not beat last combo\<close> otherwise.
\<close>

theorem isLegalMove_reasons:
  assumes "currentPlayer s = Num p \<longrightarrow> 0 \<le> p \<and> p < int (length (hands s))"
  shows "isLegalMove s p cs = Inr (specCheck s p cs)"
  using assms by (intro isLegalMove_specCheck) simp

theorem isLegalMove_reasons_witness:
  "currentPlayer pairTable = Num 0 \<and> 0 \<le> (0::int) \<and> 0 < int (length (hands pairTable)) \<and>
   isLegalMove pairTable 0 [card R3 Spade, card R3 Club]
     = Inr \<lparr>ok = True, reason = None,
            combo = Some (mkCombo PairT [card R3 Club, card R3 Spade] R3)\<rparr> \<and>
   specCheck pairTable 0 [card R5 Heart, card R3 Club]
     = \<lparr>ok = False, reason = Some ''invalid combo'', combo = None\<rparr>"
  using isLegalMove_reasons [of pairTable 0 "[card R3 Spade, card R3 Club]"]
  by (simp add: pairTable_def liveTable_def card_def specCheck_def handHolds_def
      detectCombo_def sortCardsByRankSuit_def js_sort_def cmpRankSuit_def rankIndex_def
      RANKS_def suitIndex_def SUIT_ORDER_def mkCombo_def beats_def compareCombos_def
      Math_sign_def elemAt_def accept_def reject_def Let_def)

subsection \<open>Duplicated cards in a proposal\<close>

lemma not_handHolds:
  "\<exists>c\<in>set cs. count_list hand c < count_list cs c \<Longrightarrow> \<not> handHolds hand cs"
  unfolding handHolds_def by (meson not_less)

text \<open>
  C10, as the claim states it, fails: a proposal that lists a card more often than the
  hand holds it is answered with the reason of an earlier check when there is one.  Here
  seat 1 proposes \<open>4\<heartsuit> 4\<heartsuit>\<close> out of turn.
\<close>

theorem duplicate_cards_counterexample:
  "count_list (hands liveTable ! 1) (card R4 Heart)
     < count_list [card R4 Heart, card R4 Heart] (card R4 Heart) \<and>
   isLegalMove liveTable 1 [card R4 Heart, card R4 Heart] = Inr (reject ''not your turn'') \<and>
   isLegalMove liveTable 1 [card R4 Heart, card R4 Heart] \<noteq> Inr (reject ''card not in hand'')"
  by (simp add: liveTable_def card_def isLegalMove_def reject_def)

text \<open>
  C10, amended.  A proposal that lists some card more often than the seat's hand holds it
  is never accepted; and when the game is started and not finished and the seat is the
  current player, the reason is \<open>card not in hand\<close>.
\<close>

theorem duplicate_cards_rejected:
  assumes "0 \<le> p" and "p < int (length (hands s))"
    and "\<exists>c\<in>set cs. count_list (hands s ! nat p) c < count_list cs c"
  shows "\<exists>r. isLegalMove s p cs = Inr r \<and> \<not> ok r \<and>
           (\<not> finished s \<and> started s \<and> currentPlayer s = Num p
              \<longrightarrow> r = reject ''card not in hand'')"
proof -
  have "\<not> handHolds (hands s ! nat p) cs" by (rule not_handHolds [OF assms(3)])
  then have "\<not> ok (specCheck s p cs) \<and>
      (\<not> finished s \<and> started s \<and> currentPlayer s = Num p
         \<longrightarrow> specCheck s p cs = reject ''card not in hand'')"
    by (simp add: specCheck_def reject_def)
  with isLegalMove_seat [OF assms(1,2), of cs] show ?thesis by simp
qed

theorem duplicate_cards_rejected_witness:
  "0 \<le> (0::int) \<and> 0 < int (length (hands liveTable)) \<and>
   card R5 Heart \<in> set [card R5 Heart, card R5 Heart] \<and>
   count_list (hands liveTable ! nat 0) (card R5 Heart)
     < count_list [card R5 Heart, card R5 Heart] (card R5 Heart) \<and>
   \<not> finished liveTable \<and> started liveTable \<and> currentPlayer liveTable = Num 0 \<and>
   isLegalMove liveTable 0 [card R5 Heart, card R5 Heart] = Inr (reject ''card not in hand'')"
  using duplicate_cards_rejected [of 0 liveTable "[card R5 Heart, card R5 Heart]"]
  by (simp add: liveTable_def card_def)

subsection \<open>Playing a move\<close>

lemma removeCards_foldl: "removeCards hand ds = foldl (\<lambda>h x. remove1 x h) hand ds"
proof (induction ds arbitrary: hand)
  case Nil
  then show ?case by simp
next
  case (Cons c ds)
  show ?case
  proof (cases "c \<in> set hand")
    case True
    then have a: "\<not> findIndex (sameCard c) hand < 0" by (simp add: findIndex_neg sameCard_eq)
    have b: "splice1 hand (findIndex (sameCard c) hand) = remove1 c hand"
      using splice1_findIndex [OF True] by (simp add: sameCard_eq)
    from a b Cons.IH [of "remove1 c hand"] show ?thesis by (simp add: Let_def)
  next
    case False
    then have a: "findIndex (sameCard c) hand < 0" by (simp add: findIndex_neg sameCard_eq)
    have b: "remove1 c hand = hand" using False by (rule remove1_idem)
    from a b Cons.IH [of hand] show ?thesis by (simp add: Let_def)
  qed
qed

lemma mset_foldl_remove1: "mset (foldl (\<lambda>h x. remove1 x h) hand ds) = mset hand - mset ds"
  by (induction ds arbitrary: hand) auto

lemma length_foldl_remove1:
  assumes "mset ds \<subseteq># mset hand"
  shows "length (foldl (\<lambda>h x. remove1 x h) hand ds) + length ds = length hand"
proof -
  have "size (mset hand - mset ds) = size (mset hand) - size (mset ds)"
    by (rule size_Diff_submset [OF assms])
  moreover have "size (mset ds) \<le> size (mset hand)" by (rule size_mset_mono [OF assms])
  ultimately have "size (mset (foldl (\<lambda>h x. remove1 x h) hand ds)) + size (mset ds)
                     = size (mset hand)"
    by (simp add: mset_foldl_remove1)
  then show ?thesis by simp
qed

lemma js_rem_mod: "0 \<le> a \<Longrightarrow> 0 < n \<Longrightarrow> js_rem a n = Num (a mod n)"
  by (cases "a = 0") (simp_all add: js_rem_def)

lemma isLegalMove_ok_D:
  assumes "isLegalMove s p cs = Inr r" and "ok r"
  shows "\<not> finished s \<and> started s \<and> currentPlayer s = Num p \<and>
         0 \<le> p \<and> p < int (length (hands s)) \<and> handHolds (hands s ! nat p) cs \<and>
         (\<exists>c. detectCombo cs = Some c \<and> combo r = Some c)"
  using assms
  by (auto simp: isLegalMove_def elemAt_def reject_def takeCards_handHolds
      split: if_splits option.splits sum.splits)

text \<open>
  C4.  When \<open>isLegalMove\<close> accepts a proposal of a seat (and \<open>players\<close> is positive),
  \<open>applyMove\<close> with the detected combination returns a state in which the seat's hand is
  the old hand with each card of the combination removed by value, so it is shorter by
  the size of the combination, and no other hand has changed; \<open>lastCombo\<close> is the
  combination, \<open>passesInRow\<close> is 0, \<open>finished\<close> holds iff the seat's hand is now empty,
  and \<open>currentPlayer\<close> is \<open>(seat + 1) mod players\<close>.
\<close>

theorem applyMove_after_check:
  assumes "isLegalMove s p cs = Inr r" and "ok r" and "0 < players s"
  shows "\<exists>c s'. combo r = Some c \<and> applyMove s p c = Inr s' \<and>
           hands s' = (hands s)[nat p := foldl (\<lambda>h x. remove1 x h) (hands s ! nat p) (cards c)] \<and>
           mset (hands s' ! nat p) = mset (hands s ! nat p) - mset (cards c) \<and>
           mset (cards c) \<subseteq># mset (hands s ! nat p) \<and>
           length (hands s' ! nat p) + length (cards c) = length (hands s ! nat p) \<and>
           length (hands s') = length (hands s) \<and>
           (\<forall>q. q \<noteq> nat p \<longrightarrow> hands s' ! q = hands s ! q) \<and>
           lastCombo s' = Some c \<and> passesInRow s' = 0 \<and>
           finished s' = (hands s' ! nat p = []) \<and>
           currentPlayer s' = Num ((p + 1) mod players s)"
proof -
  from isLegalMove_ok_D [OF assms(1,2)] obtain c where
    live: "\<not> finished s" and seat: "0 \<le> p" "p < int (length (hands s))" and
    holds: "handHolds (hands s ! nat p) cs" and d: "detectCombo cs = Some c" and
    r: "combo r = Some c"
    by blast
  let ?hand = "hands s ! nat p"
  let ?hand' = "foldl (\<lambda>h x. remove1 x h) ?hand (cards c)"
  have np: "nat p < length (hands s)" using seat by simp
  have "mset (cards c) = mset cs" using detectCombo_cards [OF d] by (simp add: mset_sortCards)
  with holds have sub: "mset (cards c) \<subseteq># mset ?hand" by (simp add: handHolds_mset)
  have len: "length ?hand' + length (cards c) = length ?hand"
    by (rule length_foldl_remove1 [OF sub])
  have cur: "js_rem (p + 1) (players s) = Num ((p + 1) mod players s)"
    using seat assms(3) by (simp add: js_rem_mod)
  let ?s' = "s\<lparr>hands := (hands s)[nat p := ?hand'], lastCombo := Some c, passesInRow := 0,
               finished := (if length ?hand' = 0 then True else finished s),
               currentPlayer := Num ((p + 1) mod players s)\<rparr>"
  have ap: "applyMove s p c = Inr ?s'"
    by (simp add: applyMove_def elemAt_valid [OF seat] removeCards_foldl cur Let_def)
  have "hands ?s' ! nat p = ?hand'" using np by simp
  with live np len sub have
    "hands ?s' = (hands s)[nat p := ?hand'] \<and>
     mset (hands ?s' ! nat p) = mset ?hand - mset (cards c) \<and>
     mset (cards c) \<subseteq># mset ?hand \<and>
     length (hands ?s' ! nat p) + length (cards c) = length ?hand \<and>
     length (hands ?s') = length (hands s) \<and>
     (\<forall>q. q \<noteq> nat p \<longrightarrow> hands ?s' ! q = hands s ! q) \<and>
     lastCombo ?s' = Some c \<and> passesInRow ?s' = 0 \<and>
     finished ?s' = (hands ?s' ! nat p = []) \<and>
     currentPlayer ?s' = Num ((p + 1) mod players s)"
    by (simp add: mset_foldl_remove1)
  with r ap show ?thesis by blast
qed

theorem applyMove_after_check_witness:
  "isLegalMove pairTable 0 [card R3 Spade, card R3 Club]
     = Inr (accept (mkCombo PairT [card R3 Club, card R3 Spade] R3)) \<and>
   ok (accept (mkCombo PairT [card R3 Club, card R3 Spade] R3)) \<and> 0 < players pairTable \<and>
   applyMove pairTable 0 (mkCombo PairT [card R3 Club, card R3 Spade] R3)
     = Inr (pairTable\<lparr>hands := [[card R5 Heart], [card R4 Heart]],
                      lastCombo := Some (mkCombo PairT [card R3 Club, card R3 Spade] R3),
                      currentPlayer := Num 1\<rparr>)"
  using applyMove_after_check [of pairTable 0 "[card R3 Spade, card R3 Club]"
      "accept (mkCombo PairT [card R3 Club, card R3 Spade] R3)"]
  by (simp add: pairTable_def liveTable_def card_def isLegalMove_def takeCards.simps
      findIndex.simps sameCard_def splice1_def
      detectCombo_def sortCardsByRankSuit_def js_sort_def cmpRankSuit_def rankIndex_def
      RANKS_def suitIndex_def SUIT_ORDER_def mkCombo_def compareCombos_def
      Math_sign_def elemAt_def accept_def applyMove_def js_rem_def Let_def)

subsection \<open>Passing\<close>

lemma bitLength_bounds: "2 ^ k \<le> n \<Longrightarrow> n < 2 ^ Suc k \<Longrightarrow> bitLength n = Suc k"
proof (induction k arbitrary: n)
  case 0
  then have "n = Suc 0" by simp
  then show ?case by (simp add: bitLength.simps [of "Suc 0"] bitLength.simps [of 0])
next
  case (Suc k)
  from Suc.prems have n0: "n \<noteq> 0" by auto
  from Suc.prems have "2 ^ k \<le> n div 2" "n div 2 < 2 ^ Suc k" by auto
  then have "bitLength (n div 2) = Suc k" by (rule Suc.IH)
  with n0 show ?case by (simp add: bitLength.simps [of n])
qed

lemma toDouble_exact: "\<bar>x\<bar> \<le> 2 ^ 53 \<Longrightarrow> toDouble x = x"
proof -
  assume "\<bar>x\<bar> \<le> 2 ^ 53"
  then have "nat \<bar>x\<bar> \<le> nat (2 ^ 53)" by (rule nat_mono)
  then have "nat \<bar>x\<bar> \<le> 2 ^ 53" by simp
  then show ?thesis by (simp add: toDouble_def Let_def)
qed

lemma toDouble_tie_down: "toDouble (2 ^ 53 + 1) = 2 ^ 53"
proof -
  have "bitLength (2 ^ 53 + 1) = Suc 53" by (rule bitLength_bounds) simp_all
  then have "bitLength 9007199254740993 = 54" by simp
  then show ?thesis by (simp add: toDouble_def Let_def)
qed

lemma toDouble_tie_up: "toDouble (2 ^ 54 - 1) = 2 ^ 54"
proof -
  have "bitLength (2 ^ 54 - 1) = Suc 53" by (rule bitLength_bounds) simp_all
  then have "bitLength 18014398509481983 = 54" by simp
  then show ?thesis by (simp add: toDouble_def Let_def)
qed

lemma toDouble_succ: "safeInteger x \<Longrightarrow> toDouble (x + 1) = x + 1"
  by (rule toDouble_exact) (simp add: safeInteger_def)

lemma toDouble_pred: "safeInteger x \<Longrightarrow> toDouble (x - 1) = x - 1"
  by (rule toDouble_exact) (simp add: safeInteger_def)

text \<open>
  Beyond the safe integers the pass is not counted: \<open>2^53 + 1\<close> is no double and the sum
  rounds back to \<open>2^53\<close>, as \<open>2^54 - 1\<close> rounds to \<open>2^54\<close>.
\<close>

lemma applyPass_beyond_safe_integers:
  "applyPass hugeTable 0 = hugeTable\<lparr>currentPlayer := Num 1\<rparr>"
proof -
  have a: "toDouble (2 ^ 53 + 1) = 2 ^ 53" by (rule toDouble_tie_down)
  have b: "toDouble (2 ^ 54 - 1) = 2 ^ 54" by (rule toDouble_tie_up)
  have c: "toDouble (0 + 1) = 1" by (simp add: toDouble_exact)
  have d: "js_rem 1 (2 ^ 54) = Num 1" by (simp add: js_rem_def)
  show ?thesis
    using a b c d by (simp add: applyPass_def hugeTable_def Let_def)
qed

text \<open>
  C5.  \<open>applyPass\<close> returns a finished state unchanged.  In a state that is not finished,
  of a table (a positive number of players, a seat that is not negative, counters and
  seat safe integers), it counts the pass: \<open>passesInRow\<close> is incremented by 1; when the
  incremented count reaches \<open>players - 1\<close> or more, \<open>lastCombo\<close> becomes absent and
  \<open>passesInRow\<close> 0; and \<open>currentPlayer\<close> becomes \<open>(seat + 1) mod players\<close>.
\<close>

theorem applyPass_counts:
  "(finished s \<longrightarrow> applyPass s p = s) \<and>
   (\<not> finished s \<and> 0 < players s \<and> 0 \<le> p \<and>
    safeInteger (passesInRow s) \<and> safeInteger (players s) \<and> safeInteger p \<longrightarrow>
      applyPass s p =
        s\<lparr>passesInRow := (if players s - 1 \<le> passesInRow s + 1 then 0 else passesInRow s + 1),
          lastCombo := (if players s - 1 \<le> passesInRow s + 1 then None else lastCombo s),
          currentPlayer := Num ((p + 1) mod players s)\<rparr>)"
  by (simp add: applyPass_def js_rem_mod toDouble_succ toDouble_pred Let_def)

theorem applyPass_counts_witness:
  "finished finishedTable \<and> applyPass finishedTable 1 = finishedTable \<and>
   \<not> finished pairTable \<and> 0 < players pairTable \<and> 0 \<le> (1::int) \<and>
   safeInteger (passesInRow pairTable) \<and> safeInteger (players pairTable) \<and> safeInteger 1 \<and>
   applyPass pairTable 1 = liveTable\<lparr>currentPlayer := Num 0\<rparr>"
  using applyPass_counts [of finishedTable 1] applyPass_counts [of pairTable 1]
  by (simp add: finishedTable_def pairTable_def liveTable_def safeInteger_def)

subsection \<open>After the finish\<close>

text \<open>
  C6, as the claim states it, fails for \<open>applyMove\<close>, which does not look at \<open>finished\<close>:
  on the finished table it still takes \<open>4\<heartsuit>\<close> out of the hand of seat 1.
\<close>

theorem applyMove_finished_counterexample:
  "finished finishedTable \<and>
   applyMove finishedTable 1 (mkCombo Single [card R4 Heart] R4)
     = Inr (finishedTable\<lparr>hands := [[], []],
                          lastCombo := Some (mkCombo Single [card R4 Heart] R4),
                          currentPlayer := Num 0\<rparr>) \<and>
   [[], []] \<noteq> hands finishedTable"
  by (simp add: finishedTable_def card_def mkCombo_def applyMove_def elemAt_def
      sameCard_def splice1_def js_rem_def Let_def)

text \<open>
  C6, amended.  In a finished state \<open>applyPass\<close> returns the state unchanged, for every
  seat, and \<open>isLegalMove\<close> rejects every proposal with \<open>game finished\<close>, so that no move
  is validated for \<open>applyMove\<close>: no pass and no validated move changes a hand.
\<close>

theorem finished_is_terminal:
  assumes "finished s"
  shows "applyPass s p = s \<and> hands (applyPass s p) = hands s \<and>
         isLegalMove s q cs = Inr (reject ''game finished'')"
  using assms by (simp add: applyPass_def isLegalMove_def)

theorem finished_is_terminal_witness:
  "finished finishedTable \<and> applyPass finishedTable 1 = finishedTable \<and>
   isLegalMove finishedTable 1 [card R4 Heart] = Inr (reject ''game finished'')"
  using finished_is_terminal [of finishedTable 1 1 "[card R4 Heart]"]
  by (simp add: finishedTable_def)

subsection \<open>Dealing\<close>









subsection \<open>Choosing a move\<close>

lemma keepLegal_filter:
  assumes "0 \<le> p" and "p < int (length (hands s))"
  shows "keepLegal s p ms = Inr (filter (\<lambda>m. ok (specCheck s p m)) ms)"
  by (induction ms) (simp_all add: isLegalMove_seat [OF assms])

lemma getAllLegalMoves_filter:
  assumes "0 \<le> p" and "p < int (length (hands s))"
  shows "getAllLegalMoves s p
           = Inr (filter (\<lambda>m. ok (specCheck s p m)) (candidates (hands s ! nat p)))"
  by (simp add: getAllLegalMoves_def elemAt_valid [OF assms] keepLegal_filter [OF assms])

lemma js_sort_head_mem: "js_sort cmp xs = y # ys \<Longrightarrow> y \<in> set xs"
proof -
  assume "js_sort cmp xs = y # ys"
  then have "y \<in> set (js_sort cmp xs)" by simp
  then show ?thesis by (simp only: set_js_sort)
qed

lemma scoreOpeningMove_total: "\<exists>sc. scoreOpeningMove m (Some h) = Inr sc"
  by (cases "detectCombo m") (simp_all add: scoreOpeningMove_def Let_def)

lemma scoreOpening_total:
  "\<exists>scored. scoreOpening (Some h) ms = Inr scored \<and> map fst scored = ms"
proof (induction ms)
  case Nil
  then show ?case by simp
next
  case (Cons m ms)
  from scoreOpeningMove_total [of m h] obtain sc where "scoreOpeningMove m (Some h) = Inr sc"
    by blast
  with Cons show ?case by auto
qed

lemma selectBestOpeningMove_mem:
  assumes "0 \<le> p" and "p < int (length (hands s))"
  shows "\<exists>r. selectBestOpeningMove moves s p = Inr r \<and> (\<forall>m. r = Some m \<longrightarrow> m \<in> set moves)"
proof -
  from scoreOpening_total [of "hands s ! nat p" moves] obtain scored where
    sc: "scoreOpening (Some (hands s ! nat p)) moves = Inr scored" and
    fs: "map fst scored = moves" by blast
  show ?thesis
  proof (cases "js_sort byScoreDesc scored")
    case Nil
    with sc show ?thesis
      by (cases moves) (simp_all add: selectBestOpeningMove_def elemAt_valid [OF assms])
  next
    case (Cons e es)
    from js_sort_head_mem [OF Cons] have "e \<in> set scored" by simp
    then have "fst e \<in> fst ` set scored" by (rule imageI)
    then have "fst e \<in> set (map fst scored)" by simp
    then have "fst e \<in> set moves" by (simp only: fs)
    with sc Cons show ?thesis
      by (cases e) (simp add: selectBestOpeningMove_def elemAt_valid [OF assms])
  qed
qed

lemma scoreFollowingMove_total: "\<exists>sc. scoreFollowingMove lc m = Inr sc"
proof (cases "detectCombo m")
  case None
  then show ?thesis by (simp add: scoreFollowingMove_def)
next
  case (Some c)
  from compareCombos_total [OF detectCombo_nonempty [OF Some], of lc]
  obtain v where "compareCombos lc c = Inr v" by blast
  with Some show ?thesis by (simp add: scoreFollowingMove_def)
qed

lemma scoreAll_total: "\<exists>scored. scoreAll lc ms = Inr scored \<and> map fst scored = ms"
proof (induction ms)
  case Nil
  then show ?case by simp
next
  case (Cons m ms)
  from scoreFollowingMove_total [of lc m] obtain sc where "scoreFollowingMove lc m = Inr sc"
    by blast
  with Cons show ?case by auto
qed

lemma selectBestFollowingMove_mem:
  "\<exists>r. selectBestFollowingMove moves s = Inr r \<and> (\<forall>m. r = Some m \<longrightarrow> m \<in> set moves)"
proof (cases "lastCombo s")
  case None
  then show ?thesis by (cases moves) (simp_all add: selectBestFollowingMove_def)
next
  case (Some lc)
  from scoreAll_total [of lc moves] obtain scored where
    sc: "scoreAll lc moves = Inr scored" and fs: "map fst scored = moves" by blast
  show ?thesis
  proof (cases "js_sort byScoreDesc (filter (\<lambda>item. snd item > -1000) scored)")
    case Nil
    with Some sc show ?thesis by (simp add: selectBestFollowingMove_def)
  next
    case (Cons e es)
    from js_sort_head_mem [OF Cons] have "e \<in> set scored" by simp
    then have "fst e \<in> fst ` set scored" by (rule imageI)
    then have "fst e \<in> set (map fst scored)" by simp
    then have "fst e \<in> set moves" by (simp only: fs)
    with Some sc Cons show ?thesis
      by (cases e) (simp add: selectBestFollowingMove_def)
  qed
qed

lemma selectBestMove_mem:
  assumes "0 \<le> p" and "p < int (length (hands s))"
  shows "\<exists>r. selectBestMove moves s p = Inr r \<and> (\<forall>m. r = Some m \<longrightarrow> m \<in> set moves)"
proof (cases "length moves = 0 \<or> lastCombo s \<noteq> None")
  case True
  with selectBestFollowingMove_mem [of moves s] show ?thesis
    by (auto simp: selectBestMove_def)
next
  case False
  then show ?thesis
    using selectBestOpeningMove_mem [OF assms, of moves]
    by (auto simp: selectBestMove_def)
qed

text \<open>
  C8.  For a seat of the table \<open>aiChooseMove\<close> returns without an exception; a card set it
  returns is accepted by \<open>isLegalMove\<close> for the same state and seat; and when no candidate
  is legal it returns the absent result, a pass.
\<close>

theorem aiChooseMove_legal:
  assumes "0 \<le> p" and "p < int (length (hands s))"
  shows "\<exists>r. aiChooseMove s p = Inr r \<and>
           (\<forall>cs. r = Some cs \<longrightarrow> (\<exists>l. isLegalMove s p cs = Inr l \<and> ok l)) \<and>
           (getAllLegalMoves s p = Inr [] \<longrightarrow> r = None)"
proof -
  let ?legal = "filter (\<lambda>m. ok (specCheck s p m)) (candidates (hands s ! nat p))"
  have g: "getAllLegalMoves s p = Inr ?legal" by (rule getAllLegalMoves_filter [OF assms])
  from selectBestMove_mem [OF assms, of ?legal] obtain r where
    sel: "selectBestMove ?legal s p = Inr r" and mem: "\<forall>m. r = Some m \<longrightarrow> m \<in> set ?legal"
    by blast
  let ?r = "if length ?legal = 0 then None else r"
  have ai: "aiChooseMove s p = Inr ?r"
    by (simp add: aiChooseMove_def elemAt_valid [OF assms] g sel)
  have "\<forall>cs. ?r = Some cs \<longrightarrow> (\<exists>l. isLegalMove s p cs = Inr l \<and> ok l)"
  proof (intro allI impI)
    fix cs assume "?r = Some cs"
    then have "r = Some cs" by (simp split: if_splits)
    with mem have "cs \<in> set ?legal" by blast
    then have "ok (specCheck s p cs)" by simp
    with isLegalMove_seat [OF assms, of cs] show "\<exists>l. isLegalMove s p cs = Inr l \<and> ok l"
      by simp
  qed
  moreover have "getAllLegalMoves s p = Inr [] \<longrightarrow> ?r = None" by (simp add: g)
  ultimately show ?thesis using ai by blast
qed

theorem aiChooseMove_legal_witness:
  "0 \<le> (0::int) \<and> 0 < int (length (hands liveTable)) \<and>
   aiChooseMove liveTable 0 = Inr (Some [card R5 Heart]) \<and>
   isLegalMove liveTable 0 [card R5 Heart]
     = Inr (accept (mkCombo Single [card R5 Heart] R5)) \<and>
   aiChooseMove (liveTable\<lparr>lastCombo := Some (mkCombo Single [card R2 Spade] R2)\<rparr>) 0
     = Inr None"
proof -
  have a: "aiChooseMove liveTable 0 = Inr (Some [card R5 Heart])" by code_simp
  have b: "isLegalMove liveTable 0 [card R5 Heart]
             = Inr (accept (mkCombo Single [card R5 Heart] R5))" by code_simp
  have c: "aiChooseMove (liveTable\<lparr>lastCombo := Some (mkCombo Single [card R2 Spade] R2)\<rparr>) 0
             = Inr None" by code_simp
  have d: "0 < int (length (hands liveTable))" by (simp add: liveTable_def)
  from a b c d aiChooseMove_legal [of 0 liveTable] show ?thesis by simp
qed

end
